theory Spec2Isabelle
  imports Main
begin

section \<open>Kokkos \<open>shift_right_impl\<close>: the two-step parallel shift through a temporary view\<close>

text \<open>
  The function under study is \<open>Kokkos::Experimental::Impl::shift_right_impl\<close>
  (\<open>Kokkos_ShiftRight.hpp\<close>). It receives a label, an execution space instance, two
  random-access iterators \<open>first\<close> and \<open>last\<close> into one view, and a shift amount
  \<open>n\<close> of the iterator's \<open>difference_type\<close>.

  Iterators are modelled as the view they walk together with their (signed) current
  index; \<open>first\<close> and \<open>last\<close> of the call are indices into the caller's view. All index
  arithmetic the function performs (\<open>last - first\<close>, \<open>last - n\<close>, \<open>first + n\<close>) stays
  between the two endpoints on every path that performs it, so indices are
  unbounded integers and no machine wrap-around can arise. The parameter \<open>last\<close> is
  written \<open>last'\<close> below, since \<open>last\<close> is a function on lists in HOL.
\<close>

subsection \<open>Data\<close>

text \<open>The two views a work item can touch: the caller's view and the temporary view.\<close>

datatype buffer = View | Tmp

type_synonym iterator = "buffer \<times> int"

text \<open>
  What the call does besides returning: creating the temporary view, launching a
  kernel, the element accesses of every work item, and the fence.
\<close>

datatype event =
    Alloc string nat
  | Launch string nat
  | MoveFrom iterator
  | AssignTo iterator
  | Fence string

datatype error = ContractViolation | AllocationFailure

text \<open>
  The element type of the views. \<open>init_value\<close> is the value a freshly created view holds
  in every entry. \<open>moved_from src dst\<close> is the state move assignment leaves in its source,
  given the old values of source and destination: the source comment says such
  elements "are in undefined state because have been moved", so nothing is fixed about it.
\<close>

record 'a value_type =
  init_value :: 'a
  moved_from :: "'a \<Rightarrow> 'a \<Rightarrow> 'a"

text \<open>
  The execution space instance \<open>ex\<close>, as far as the call observes it: whether its memory
  space can provide a view of a given extent, and the order in which it runs the work
  items of the first and of the second launch, given the size of the launch's range.
\<close>

record exec_space =
  can_allocate :: "nat \<Rightarrow> bool"
  order1 :: "nat \<Rightarrow> nat list"
  order2 :: "nat \<Rightarrow> nat list"

record 'a memory =
  view :: "'a list"
  tmp_view :: "'a list"
  trace :: "event list"

text \<open>
  The result of a call: what it returned or raised, the contents of the caller's view
  and the events, in order. An element access outside its view is undefined behaviour
  in the source and has no post-state.
\<close>

datatype 'a outcome =
    Outcome "error + int" "'a list" "event list"
  | Undefined

subsection \<open>Iterators and element access\<close>

definition advance :: "iterator \<Rightarrow> int \<Rightarrow> iterator" where
  "advance it d = (fst it, snd it + d)"

definition distance :: "int \<Rightarrow> int \<Rightarrow> int" where
  "distance first last' = last' - first"

definition buf :: "'a memory \<Rightarrow> buffer \<Rightarrow> 'a list" where
  "buf m b = (case b of View \<Rightarrow> view m | Tmp \<Rightarrow> tmp_view m)"

definition set_buf :: "'a memory \<Rightarrow> buffer \<Rightarrow> 'a list \<Rightarrow> 'a memory" where
  "set_buf m b xs = (case b of View \<Rightarrow> m\<lparr>view := xs\<rparr> | Tmp \<Rightarrow> m\<lparr>tmp_view := xs\<rparr>)"

definition in_bounds :: "'a memory \<Rightarrow> iterator \<Rightarrow> bool" where
  "in_bounds m it = (0 \<le> snd it \<and> snd it < int (length (buf m (fst it))))"

definition deref :: "'a memory \<Rightarrow> iterator \<Rightarrow> 'a" where
  "deref m it = buf m (fst it) ! nat (snd it)"

definition assign :: "'a memory \<Rightarrow> iterator \<Rightarrow> 'a \<Rightarrow> 'a memory" where
  "assign m it v = set_buf m (fst it) ((buf m (fst it))[nat (snd it) := v])"

definition log_events :: "event list \<Rightarrow> 'a memory \<Rightarrow> 'a memory" where
  "log_events es m = m\<lparr>trace := trace m @ es\<rparr>"

subsection \<open>The collaborators of the call\<close>

text \<open>
  Modelled from the spec: \<open>KOKKOS_EXPECTS\<close> and \<open>Impl::expect_valid_range\<close> (their
  definitions are not among the sources). The spec calls them assertive precondition
  checks: a violated precondition is reported and the call does not proceed. The valid
  range is the one whose endpoints are not inverted.
\<close>

definition KOKKOS_EXPECTS :: "bool \<Rightarrow> error option" where
  "KOKKOS_EXPECTS c = (if c then None else Some ContractViolation)"

definition expect_valid_range :: "int \<Rightarrow> int \<Rightarrow> error option" where
  "expect_valid_range first last' = KOKKOS_EXPECTS (last' \<ge> first)"

text \<open>
  Modelled from the spec: the constructor of \<open>Kokkos::View\<close> (not among the sources).
  It acquires a buffer of exactly the requested extent on the execution context, or
  fails with an allocation failure that is surfaced to the caller. From here on the
  caller's view \<open>xs\<close> and the temporary view form the memory the work items act on.
\<close>

definition create_view ::
  "'a value_type \<Rightarrow> exec_space \<Rightarrow> string \<Rightarrow> nat \<Rightarrow> 'a list \<Rightarrow> 'a memory option" where
  "create_view vt ex name extent xs =
     (if can_allocate ex extent
      then Some \<lparr>view = xs, tmp_view = replicate extent (init_value vt),
                 trace = [Alloc name extent]\<rparr>
      else None)"

text \<open>
  Modelled from the spec: \<open>StdMoveFunctor\<close> (\<open>Kokkos_Move.hpp\<close>, not among the sources).
  It holds a source and a destination iterator; work item \<open>i\<close> moves the element at
  \<open>m_first + i\<close> into \<open>m_dest_first + i\<close>, and the source becomes unspecified.
\<close>

record move_functor =
  m_first :: iterator
  m_dest_first :: iterator

definition StdMoveFunctor :: "iterator \<Rightarrow> iterator \<Rightarrow> move_functor" where
  "StdMoveFunctor first dest_first = \<lparr>m_first = first, m_dest_first = dest_first\<rparr>"

definition move_item :: "'a value_type \<Rightarrow> move_functor \<Rightarrow> nat \<Rightarrow> 'a memory \<Rightarrow> 'a memory option" where
  "move_item vt f i m =
     (let src = advance (m_first f) (int i);
          dst = advance (m_dest_first f) (int i)
      in if in_bounds m src \<and> in_bounds m dst
         then let v = deref m src;
                  w = deref m dst
              in Some (log_events [MoveFrom src, AssignTo dst]
                         (assign (assign m dst v) src (moved_from vt v w)))
         else None)"

text \<open>
  Modelled from the spec: \<open>Kokkos::parallel_for\<close> over a \<open>RangePolicy\<close> and the fence of
  the execution space (not among the sources). A launch runs one work item for every
  index of its range \<open>[0, count)\<close>, with no order guaranteed among them: \<open>order\<close> is the
  order the execution context chose. Successive launches on one instance run one after
  the other, so a launch is placed where its work items run. The fence blocks until all
  launched work has completed. A work item that leaves its view ends the run without a
  result.
\<close>

fun run_items :: "'a value_type \<Rightarrow> move_functor \<Rightarrow> nat list \<Rightarrow> 'a memory \<Rightarrow> 'a memory option" where
  "run_items vt f [] m = Some m"
| "run_items vt f (i # rest) m =
     (case move_item vt f i m of
        None \<Rightarrow> None
      | Some m' \<Rightarrow> run_items vt f rest m')"

definition parallel_for ::
  "'a value_type \<Rightarrow> string \<Rightarrow> nat list \<Rightarrow> nat \<Rightarrow> move_functor \<Rightarrow> 'a memory \<Rightarrow> 'a memory option" where
  "parallel_for vt label order count f m =
     run_items vt f order (log_events [Launch label count] m)"

definition fence :: "string \<Rightarrow> 'a memory \<Rightarrow> 'a memory" where
  "fence name m = log_events [Fence name] m"

text \<open>
  An order is a schedule of a range \<open>[0, count)\<close> when it runs every index of the range
  exactly once.
\<close>

definition is_schedule :: "nat \<Rightarrow> nat list \<Rightarrow> bool" where
  "is_schedule count order = (sort order = [0..<count])"

subsection \<open>\<open>shift_right_impl\<close>\<close>

text \<open>
  The body of the source function, statement by statement. The first check,
  \<open>static_assert_random_access_and_accessible\<close>, is a compile-time constraint on the
  iterator type and has no run-time counterpart. \<open>begin(tmp_view)\<close> is the iterator
  \<open>(Tmp, 0)\<close>, and \<open>tmp_view.extent(0)\<close> is the length of the temporary view.
\<close>

definition shift_right_impl ::
  "'a value_type \<Rightarrow> string \<Rightarrow> exec_space \<Rightarrow> int \<Rightarrow> int \<Rightarrow> int \<Rightarrow> 'a list \<Rightarrow> 'a outcome" where
  "shift_right_impl vt label ex first last' n xs =
     (case expect_valid_range first last' of
        Some e \<Rightarrow> Outcome (Inl e) xs []
      | None \<Rightarrow>
     (case KOKKOS_EXPECTS (n \<ge> 0) of
        Some e \<Rightarrow> Outcome (Inl e) xs []
      | None \<Rightarrow>
     (if n = 0 then Outcome (Inr first) xs []
      else if n \<ge> distance first last' then Outcome (Inr last') xs []
      else
       (let num_elements_to_move = nat (distance first (last' - n))
        in
       (case create_view vt ex ''shift_right_impl'' num_elements_to_move xs of
          None \<Rightarrow> Outcome (Inl AllocationFailure) xs []
        | Some m0 \<Rightarrow>
       (case parallel_for vt label (order1 ex num_elements_to_move) num_elements_to_move
               (StdMoveFunctor (View, first) (Tmp, 0)) m0 of
          None \<Rightarrow> Undefined
        | Some m1 \<Rightarrow>
       (case parallel_for vt label (order2 ex (length (tmp_view m1))) (length (tmp_view m1))
               (StdMoveFunctor (Tmp, 0) (View, first + n)) m1 of
          None \<Rightarrow> Undefined
        | Some m2 \<Rightarrow>
       (let m3 = fence ''Kokkos::shift_right: fence after operation'' m2
        in Outcome (Inr (first + n)) (view m3) (trace m3)))))))))"

text \<open>Launches and fences among the events of a call.\<close>

definition is_launch :: "event \<Rightarrow> bool" where
  "is_launch e = (case e of Launch _ _ \<Rightarrow> True | _ \<Rightarrow> False)"

definition is_fence :: "event \<Rightarrow> bool" where
  "is_fence e = (case e of Fence _ \<Rightarrow> True | _ \<Rightarrow> False)"

text \<open>The accesses of work item \<open>i\<close> of a move kernel, as \<open>move_item\<close> logs them.\<close>

definition item_accesses :: "move_functor \<Rightarrow> nat \<Rightarrow> event list" where
  "item_accesses f i =
     [MoveFrom (advance (m_first f) (int i)), AssignTo (advance (m_dest_first f) (int i))]"

subsection \<open>Concrete element types and execution contexts\<close>

text \<open>
  Integers are trivially copyable: a move leaves its source as it was. The second element
  type clears the source of a move, as an owning type would.
\<close>

definition int_values :: "int value_type" where
  "int_values = \<lparr>init_value = 0, moved_from = (\<lambda>v w. v)\<rparr>"

definition clearing_values :: "int value_type" where
  "clearing_values = \<lparr>init_value = 0, moved_from = (\<lambda>v w. -1)\<rparr>"

text \<open>
  A context that runs the work items of every launch in index order, one that runs
  them in two different reversed orders, and one whose memory space is exhausted.
\<close>

definition serial_space :: exec_space where
  "serial_space = \<lparr>can_allocate = (\<lambda>k. True), order1 = (\<lambda>k. [0..<k]), order2 = (\<lambda>k. [0..<k])\<rparr>"

definition reversing_space :: exec_space where
  "reversing_space =
     \<lparr>can_allocate = (\<lambda>k. True), order1 = (\<lambda>k. rev [0..<k]), order2 = (\<lambda>k. rev [0..<k])\<rparr>"

definition exhausted_space :: exec_space where
  "exhausted_space = \<lparr>can_allocate = (\<lambda>k. False), order1 = (\<lambda>k. [0..<k]), order2 = (\<lambda>k. [0..<k])\<rparr>"

subsection \<open>Closed forms used in the proofs\<close>

text \<open>
  The value found at an iterator after the work items with indices in \<open>S\<close> of a move
  kernel have run, in any order, from memory \<open>m\<close>.
\<close>

definition after_moves :: "'a value_type \<Rightarrow> move_functor \<Rightarrow> nat set \<Rightarrow> 'a memory \<Rightarrow> iterator \<Rightarrow> 'a" where
  "after_moves vt f S m it =
     (let i = nat (snd it - snd (m_first f));
          j = nat (snd it - snd (m_dest_first f))
      in if fst it = fst (m_first f) \<and> snd (m_first f) \<le> snd it \<and> i \<in> S
         then moved_from vt (deref m it) (deref m (advance (m_dest_first f) (int i)))
         else if fst it = fst (m_dest_first f) \<and> snd (m_dest_first f) \<le> snd it \<and> j \<in> S
         then deref m (advance (m_first f) (int j))
         else deref m it)"

text \<open>
  The contents of the caller's view after a shift in the general case: the tail of the
  range holds the elements that were \<open>n\<close> positions before, the positions phase 1 moved
  from and phase 2 did not fill hold their moved-from state, and the rest is untouched.
\<close>

definition shifted :: "'a value_type \<Rightarrow> int \<Rightarrow> int \<Rightarrow> int \<Rightarrow> 'a list \<Rightarrow> 'a list" where
  "shifted vt first last' n xs =
     map (\<lambda>j. if first + n \<le> int j \<and> int j < last' then xs ! nat (int j - n)
              else if first \<le> int j \<and> int j < last' - n
                   then moved_from vt (xs ! j) (init_value vt)
                   else xs ! j)
       [0..<length xs]"

text \<open>The events of a call in the general case, with \<open>k\<close> elements to move.\<close>

definition general_trace :: "string \<Rightarrow> exec_space \<Rightarrow> int \<Rightarrow> int \<Rightarrow> nat \<Rightarrow> event list" where
  "general_trace label ex first n k =
     [Alloc ''shift_right_impl'' k, Launch label k]
     @ concat (map (item_accesses (StdMoveFunctor (View, first) (Tmp, 0))) (order1 ex k))
     @ [Launch label k]
     @ concat (map (item_accesses (StdMoveFunctor (Tmp, 0) (View, first + n))) (order2 ex k))
     @ [Fence ''Kokkos::shift_right: fence after operation'']"

text \<open>The element an event accesses, and the elements a work item accesses.\<close>

definition accessed :: "event \<Rightarrow> iterator set" where
  "accessed e = (case e of MoveFrom it \<Rightarrow> {it} | AssignTo it \<Rightarrow> {it} | _ \<Rightarrow> {})"

definition footprint :: "move_functor \<Rightarrow> nat \<Rightarrow> iterator set" where
  "footprint f i = (\<Union>e \<in> set (item_accesses f i). accessed e)"

section \<open>Memory, work items and launches\<close>

lemma buf_set_buf: "buf (set_buf m b xs) b' = (if b' = b then xs else buf m b')"
  by (cases b; cases b') (simp_all add: buf_def set_buf_def)

lemma trace_set_buf: "trace (set_buf m b xs) = trace m"
  by (cases b) (simp_all add: set_buf_def)

lemma buf_log_events: "buf (log_events es m) b = buf m b"
  by (cases b) (simp_all add: buf_def log_events_def)

lemma trace_log_events: "trace (log_events es m) = trace m @ es"
  by (simp add: log_events_def)

lemma trace_assign: "trace (assign m it v) = trace m"
  by (simp add: assign_def trace_set_buf)

lemma length_buf_assign: "length (buf (assign m it v) b) = length (buf m b)"
  by (simp add: assign_def buf_set_buf)

lemma in_bounds_assign: "in_bounds (assign m it v) it' = in_bounds m it'"
  by (simp add: in_bounds_def length_buf_assign)

lemma in_bounds_log_events: "in_bounds (log_events es m) it = in_bounds m it"
  by (simp add: in_bounds_def buf_log_events)

lemma deref_log_events: "deref (log_events es m) it = deref m it"
  by (simp add: deref_def buf_log_events)

lemma deref_assign:
  assumes "in_bounds m it" and "0 \<le> snd it'"
  shows "deref (assign m it v) it' = (if it' = it then v else deref m it')"
proof (cases "fst it' = fst it")
  case False
  then have "it' \<noteq> it" by auto
  with False show ?thesis by (simp add: deref_def assign_def buf_set_buf)
next
  case True
  from assms have b: "nat (snd it) < length (buf m (fst it))" and nn: "0 \<le> snd it"
    by (auto simp: in_bounds_def)
  have eq: "(it' = it) = (nat (snd it) = nat (snd it'))"
    using True nn assms(2) by (auto simp: prod_eq_iff)
  show ?thesis
    using True b by (simp add: deref_def assign_def buf_set_buf eq)
qed

lemma move_item_Some:
  assumes "in_bounds m (advance (m_first f) (int i))"
    and "in_bounds m (advance (m_dest_first f) (int i))"
  shows "move_item vt f i m =
     Some (log_events (item_accesses f i)
        (assign (assign m (advance (m_dest_first f) (int i)) (deref m (advance (m_first f) (int i))))
           (advance (m_first f) (int i))
           (moved_from vt (deref m (advance (m_first f) (int i)))
              (deref m (advance (m_dest_first f) (int i))))))"
  using assms by (simp add: move_item_def Let_def item_accesses_def)

lemma move_item_None:
  "\<not> (in_bounds m (advance (m_first f) (int i)) \<and> in_bounds m (advance (m_dest_first f) (int i)))
   \<Longrightarrow> move_item vt f i m = None"
  by (simp add: move_item_def Let_def)

lemma move_item_effect:
  assumes src: "in_bounds m (advance (m_first f) (int i))"
    and dst: "in_bounds m (advance (m_dest_first f) (int i))"
    and diff: "fst (m_first f) \<noteq> fst (m_dest_first f)"
    and res: "move_item vt f i m = Some m'"
  shows "trace m' = trace m @ item_accesses f i"
    and "in_bounds m' it = in_bounds m it"
    and "length (buf m' b) = length (buf m b)"
    and "0 \<le> snd it \<Longrightarrow> deref m' it = after_moves vt f {i} m it"
proof -
  let ?s = "advance (m_first f) (int i)" and ?d = "advance (m_dest_first f) (int i)"
  have m': "m' = log_events (item_accesses f i)
      (assign (assign m ?d (deref m ?s)) ?s (moved_from vt (deref m ?s) (deref m ?d)))"
    using move_item_Some [OF src dst, of vt] res by simp
  show "trace m' = trace m @ item_accesses f i"
    by (simp add: m' trace_log_events trace_assign)
  show "in_bounds m' it = in_bounds m it"
    by (simp add: m' in_bounds_log_events in_bounds_assign)
  show "length (buf m' b) = length (buf m b)"
    by (simp add: m' buf_log_events length_buf_assign)
  assume nn: "0 \<le> snd it"
  have src': "in_bounds (assign m ?d (deref m ?s)) ?s"
    using src by (simp add: in_bounds_assign)
  have ne: "?s \<noteq> ?d" using diff by (auto simp: advance_def)
  have "deref m' it = (if it = ?s then moved_from vt (deref m ?s) (deref m ?d)
                        else if it = ?d then deref m ?s else deref m it)"
    by (simp add: m' deref_log_events deref_assign [OF src' nn] deref_assign [OF dst nn])
  also have "\<dots> = after_moves vt f {i} m it"
  proof -
    obtain b k where it: "it = (b, k)" by (cases it)
    show ?thesis
      using diff nn src dst unfolding it
      by (auto simp: after_moves_def Let_def advance_def in_bounds_def prod_eq_iff)
  qed
  finally show "deref m' it = after_moves vt f {i} m it" .
qed

lemma after_moves_empty: "after_moves vt f {} m it = deref m it"
  by (simp add: after_moves_def)

lemma after_moves_insert:
  assumes diff: "fst (m_first f) \<noteq> fst (m_dest_first f)"
    and s0: "0 \<le> snd (m_first f)" and d0: "0 \<le> snd (m_dest_first f)"
    and fresh: "i \<notin> S"
    and step: "\<And>it. 0 \<le> snd it \<Longrightarrow> deref m1 it = after_moves vt f {i} m it"
    and nn: "0 \<le> snd it"
  shows "after_moves vt f S m1 it = after_moves vt f (insert i S) m it"
proof -
  obtain b k where it: "it = (b, k)" by (cases it)
  obtain bs s where src: "m_first f = (bs, s)" by (cases "m_first f")
  obtain bd d where dst: "m_dest_first f = (bd, d)" by (cases "m_dest_first f")
  have k0: "0 \<le> k" using nn by (simp add: it)
  have D: "\<And>b' x. 0 \<le> x \<Longrightarrow> deref m1 (b', x) = after_moves vt f {i} m (b', x)"
    using step by simp
  show ?thesis
    unfolding it using diff fresh k0 s0 d0
    by (auto simp: after_moves_def Let_def advance_def src dst D)
qed

lemma run_items_effect:
  assumes diff: "fst (m_first f) \<noteq> fst (m_dest_first f)"
    and s0: "0 \<le> snd (m_first f)" and d0: "0 \<le> snd (m_dest_first f)"
    and dist: "distinct order"
    and inb: "\<And>i. i \<in> set order \<Longrightarrow>
           in_bounds m (advance (m_first f) (int i)) \<and> in_bounds m (advance (m_dest_first f) (int i))"
  shows "\<exists>m'. run_items vt f order m = Some m'
           \<and> trace m' = trace m @ concat (map (item_accesses f) order)
           \<and> (\<forall>b. length (buf m' b) = length (buf m b))
           \<and> (\<forall>it. 0 \<le> snd it \<longrightarrow> deref m' it = after_moves vt f (set order) m it)"
  using dist inb
proof (induction order arbitrary: m)
  case Nil
  show ?case by (simp add: after_moves_empty)
next
  case (Cons i rest)
  have src: "in_bounds m (advance (m_first f) (int i))"
    and dst: "in_bounds m (advance (m_dest_first f) (int i))"
    using Cons.prems(2) [of i] by simp_all
  obtain m1 where m1: "move_item vt f i m = Some m1"
    using move_item_Some [OF src dst] by blast
  note eff = move_item_effect [OF src dst diff m1]
  have fresh: "i \<notin> set rest" and dist': "distinct rest"
    using Cons.prems(1) by simp_all
  have inb': "\<And>j. j \<in> set rest \<Longrightarrow>
      in_bounds m1 (advance (m_first f) (int j)) \<and> in_bounds m1 (advance (m_dest_first f) (int j))"
    using Cons.prems(2) by (simp add: eff(2))
  from Cons.IH [OF dist' inb'] obtain m' where
    run: "run_items vt f rest m1 = Some m'"
    and tr: "trace m' = trace m1 @ concat (map (item_accesses f) rest)"
    and len: "\<forall>b. length (buf m' b) = length (buf m1 b)"
    and val: "\<forall>it. 0 \<le> snd it \<longrightarrow> deref m' it = after_moves vt f (set rest) m1 it"
    by blast
  have "run_items vt f (i # rest) m = Some m'"
    by (simp add: m1 run)
  moreover have "trace m' = trace m @ concat (map (item_accesses f) (i # rest))"
    by (simp add: tr eff(1))
  moreover have "\<forall>b. length (buf m' b) = length (buf m b)"
    by (simp add: len eff(3))
  moreover have "\<forall>it. 0 \<le> snd it \<longrightarrow> deref m' it = after_moves vt f (set (i # rest)) m it"
  proof (intro allI impI)
    fix it :: iterator assume nn: "0 \<le> snd it"
    have "deref m' it = after_moves vt f (set rest) m1 it"
      using val nn by blast
    also have "\<dots> = after_moves vt f (insert i (set rest)) m it"
      by (rule after_moves_insert [OF diff s0 d0 fresh eff(4) nn])
    finally show "deref m' it = after_moves vt f (set (i # rest)) m it"
      by simp
  qed
  ultimately show ?case by blast
qed

lemma is_schedule_set: "is_schedule k order \<Longrightarrow> set order = {0..<k}"
  unfolding is_schedule_def by (metis set_sort set_upt)

lemma is_schedule_distinct: "is_schedule k order \<Longrightarrow> distinct order"
  unfolding is_schedule_def by (metis distinct_sort distinct_upt)

lemma is_schedule_length: "is_schedule k order \<Longrightarrow> length order = k"
  unfolding is_schedule_def by (metis length_sort length_upt diff_zero)

lemma parallel_for_effect:
  assumes diff: "fst (m_first f) \<noteq> fst (m_dest_first f)"
    and s0: "0 \<le> snd (m_first f)" and d0: "0 \<le> snd (m_dest_first f)"
    and sched: "is_schedule k order"
    and inb: "\<And>i. i < k \<Longrightarrow>
           in_bounds m (advance (m_first f) (int i)) \<and> in_bounds m (advance (m_dest_first f) (int i))"
  shows "\<exists>m'. parallel_for vt label order k f m = Some m'
           \<and> trace m' = trace m @ [Launch label k] @ concat (map (item_accesses f) order)
           \<and> (\<forall>b. length (buf m' b) = length (buf m b))
           \<and> (\<forall>it. 0 \<le> snd it \<longrightarrow> deref m' it = after_moves vt f {0..<k} m it)"
proof -
  let ?m = "log_events [Launch label k] m"
  have inb': "\<And>i. i \<in> set order \<Longrightarrow>
           in_bounds ?m (advance (m_first f) (int i)) \<and> in_bounds ?m (advance (m_dest_first f) (int i))"
    using inb by (simp add: is_schedule_set [OF sched] in_bounds_log_events)
  from run_items_effect [OF diff s0 d0 is_schedule_distinct [OF sched] inb', of vt]
  obtain m' where run: "run_items vt f order ?m = Some m'"
    and tr: "trace m' = trace ?m @ concat (map (item_accesses f) order)"
    and len: "\<forall>b. length (buf m' b) = length (buf ?m b)"
    and val: "\<forall>it. 0 \<le> snd it \<longrightarrow> deref m' it = after_moves vt f (set order) ?m it"
    by blast
  have am: "\<And>it. after_moves vt f (set order) ?m it = after_moves vt f {0..<k} m it"
    by (simp add: after_moves_def Let_def deref_log_events is_schedule_set [OF sched])
  show ?thesis
    using run tr len val
    by (simp add: parallel_for_def trace_log_events buf_log_events am)
qed

lemma view_nth_deref: "view m ! j = deref m (View, int j)"
  by (simp add: deref_def buf_def)

lemma shift_right_phases:
  assumes f0: "0 \<le> first" and le: "last' \<le> int (length xs)"
    and n0: "0 < n" and nL: "n < last' - first"
    and k: "k = nat (last' - n - first)"
    and alloc: "can_allocate ex k"
    and sched1: "is_schedule k (order1 ex k)"
    and sched2: "is_schedule k (order2 ex k)"
  shows "\<exists>m0 m1 m2.
           create_view vt ex ''shift_right_impl'' k xs = Some m0
         \<and> view m0 = xs \<and> length (tmp_view m0) = k
         \<and> parallel_for vt label (order1 ex k) k (StdMoveFunctor (View, first) (Tmp, 0)) m0 = Some m1
         \<and> length (tmp_view m1) = k
         \<and> (\<forall>i < k. tmp_view m1 ! i = xs ! nat (first + int i))
         \<and> parallel_for vt label (order2 ex k) k (StdMoveFunctor (Tmp, 0) (View, first + n)) m1 = Some m2
         \<and> (\<forall>i < k. view m2 ! nat (first + n + int i) = tmp_view m1 ! i)
         \<and> view m2 = shifted vt first last' n xs
         \<and> shift_right_impl vt label ex first last' n xs =
             Outcome (Inr (first + n)) (view m2) (general_trace label ex first n k)"
proof -
  let ?f1 = "StdMoveFunctor (View, first) (Tmp, 0)"
    and ?f2 = "StdMoveFunctor (Tmp, 0) (View, first + n)"
  define m0 :: "'a memory" where
    "m0 = \<lparr>view = xs, tmp_view = replicate k (init_value vt), trace = [Alloc ''shift_right_impl'' k]\<rparr>"
  have kpos: "int k = last' - n - first" using k nL by simp
  have num: "nat (distance first (last' - n)) = k"
    by (simp add: distance_def k)
  have cv: "create_view vt ex ''shift_right_impl'' k xs = Some m0"
    using alloc by (simp add: create_view_def m0_def)
  have inb1: "\<And>i. i < k \<Longrightarrow>
      in_bounds m0 (advance (m_first ?f1) (int i)) \<and> in_bounds m0 (advance (m_dest_first ?f1) (int i))"
    using f0 le n0 kpos
    by (simp add: StdMoveFunctor_def advance_def in_bounds_def buf_def m0_def)
  from parallel_for_effect [of ?f1 k "order1 ex k" m0 vt label, OF _ _ _ sched1 inb1]
  obtain m1 where p1: "parallel_for vt label (order1 ex k) k ?f1 m0 = Some m1"
    and tr1: "trace m1 = trace m0 @ [Launch label k] @ concat (map (item_accesses ?f1) (order1 ex k))"
    and len1: "\<forall>b. length (buf m1 b) = length (buf m0 b)"
    and val1: "\<forall>it. 0 \<le> snd it \<longrightarrow> deref m1 it = after_moves vt ?f1 {0..<k} m0 it"
    using f0 by (auto simp: StdMoveFunctor_def)
  have lt1: "length (tmp_view m1) = k"
    using len1 [rule_format, of Tmp] by (simp add: buf_def m0_def)
  have lv1: "length (view m1) = length xs"
    using len1 [rule_format, of View] by (simp add: buf_def m0_def)
  have inb2: "\<And>i. i < k \<Longrightarrow>
      in_bounds m1 (advance (m_first ?f2) (int i)) \<and> in_bounds m1 (advance (m_dest_first ?f2) (int i))"
    using f0 le n0 kpos
    by (simp add: StdMoveFunctor_def advance_def in_bounds_def buf_def lt1 lv1)
  from parallel_for_effect [of ?f2 k "order2 ex k" m1 vt label, OF _ _ _ sched2 inb2]
  obtain m2 where p2: "parallel_for vt label (order2 ex k) k ?f2 m1 = Some m2"
    and tr2: "trace m2 = trace m1 @ [Launch label k] @ concat (map (item_accesses ?f2) (order2 ex k))"
    and len2: "\<forall>b. length (buf m2 b) = length (buf m1 b)"
    and val2: "\<forall>it. 0 \<le> snd it \<longrightarrow> deref m2 it = after_moves vt ?f2 {0..<k} m1 it"
    using f0 n0 by (auto simp: StdMoveFunctor_def)
  have lv2: "length (view m2) = length xs"
    using len2 [rule_format, of View] by (simp add: buf_def lv1)
  have run: "shift_right_impl vt label ex first last' n xs =
      Outcome (Inr (first + n)) (view m2)
        (trace m2 @ [Fence ''Kokkos::shift_right: fence after operation''])"
    using n0 nL p1 p2
    by (simp add: shift_right_impl_def expect_valid_range_def KOKKOS_EXPECTS_def
        distance_def k [symmetric] Let_def cv lt1
        fence_def log_events_def StdMoveFunctor_def)
  have tmp1: "\<And>i. i < k \<Longrightarrow> deref m1 (Tmp, int i) = xs ! nat (first + int i)"
    using f0 val1 [rule_format, of "(Tmp, int i)" for i]
    by (simp add: after_moves_def Let_def StdMoveFunctor_def advance_def deref_def buf_def m0_def)
  have view1: "\<And>j. j < length xs \<Longrightarrow> deref m1 (View, int j) =
      (if first \<le> int j \<and> int j < last' - n then moved_from vt (xs ! j) (init_value vt) else xs ! j)"
    using f0 kpos val1 [rule_format, of "(View, int j)" for j]
    by (auto simp: after_moves_def Let_def StdMoveFunctor_def advance_def deref_def buf_def m0_def)
  have fill: "\<And>i. i < k \<Longrightarrow> view m2 ! nat (first + n + int i) = tmp_view m1 ! i"
  proof -
    fix i assume i: "i < k"
    have "view m2 ! nat (first + n + int i) = deref m2 (View, first + n + int i)"
      using f0 n0 by (simp add: deref_def buf_def)
    also have "\<dots> = after_moves vt ?f2 {0..<k} m1 (View, first + n + int i)"
      using val2 f0 n0 by simp
    also have "\<dots> = deref m1 (Tmp, int i)"
      using i by (simp add: after_moves_def Let_def StdMoveFunctor_def advance_def)
    finally show "view m2 ! nat (first + n + int i) = tmp_view m1 ! i"
      by (simp add: deref_def buf_def)
  qed
  have drain: "\<And>i. i < k \<Longrightarrow> tmp_view m1 ! i = xs ! nat (first + int i)"
    using tmp1 by (simp add: deref_def buf_def)
  have sh: "view m2 = shifted vt first last' n xs"
  proof (rule nth_equalityI)
    show "length (view m2) = length (shifted vt first last' n xs)"
      by (simp add: lv2 shifted_def)
  next
    fix j assume "j < length (view m2)"
    then have j: "j < length xs" by (simp add: lv2)
    have "view m2 ! j = after_moves vt ?f2 {0..<k} m1 (View, int j)"
      using val2 by (simp add: view_nth_deref)
    also have "\<dots> = (if first + n \<le> int j \<and> int j < last'
                         then deref m1 (Tmp, int j - (first + n))
                         else deref m1 (View, int j))"
      using kpos by (auto simp: after_moves_def Let_def StdMoveFunctor_def advance_def)
    also have "\<dots> = shifted vt first last' n xs ! j"
    proof (cases "first + n \<le> int j \<and> int j < last'")
      case True
      then have "nat (int j - (first + n)) < k" using kpos by linarith
      from tmp1 [OF this] True f0 n0 j show ?thesis
        by (simp add: shifted_def algebra_simps)
    next
      case False
      then show ?thesis using j view1 [OF j] by (auto simp: shifted_def)
    qed
    finally show "view m2 ! j = shifted vt first last' n xs ! j" .
  qed
  have tr: "trace m2 @ [Fence ''Kokkos::shift_right: fence after operation'']
      = general_trace label ex first n k"
    by (simp add: tr2 tr1 m0_def general_trace_def)
  have m0: "view m0 = xs" "length (tmp_view m0) = k"
    by (simp_all add: m0_def)
  from cv m0 p1 lt1 drain p2 fill sh run tr show ?thesis
    by auto
qed

lemma shift_right_general:
  assumes f0: "0 \<le> first" and le: "last' \<le> int (length xs)"
    and n0: "0 < n" and nL: "n < last' - first"
    and k: "k = nat (last' - n - first)"
    and alloc: "can_allocate ex k"
    and sched1: "is_schedule k (order1 ex k)"
    and sched2: "is_schedule k (order2 ex k)"
  shows "shift_right_impl vt label ex first last' n xs =
           Outcome (Inr (first + n)) (shifted vt first last' n xs) (general_trace label ex first n k)"
  using shift_right_phases [OF assms, of vt label] by auto

lemma shift_right_general_distance:
  assumes "0 \<le> first" and "last' \<le> int (length xs)"
    and "0 < n" and "n < distance first last'"
    and "can_allocate ex (nat (distance first last' - n))"
    and "is_schedule (nat (distance first last' - n)) (order1 ex (nat (distance first last' - n)))"
    and "is_schedule (nat (distance first last' - n)) (order2 ex (nat (distance first last' - n)))"
  shows "shift_right_impl vt label ex first last' n xs =
           Outcome (Inr (first + n)) (shifted vt first last' n xs)
             (general_trace label ex first n (nat (distance first last' - n)))"
proof -
  have k: "nat (distance first last' - n) = nat (last' - n - first)"
    by (simp add: distance_def algebra_simps)
  have nL: "n < last' - first"
    using assms(4) by (simp add: distance_def)
  show ?thesis
    unfolding k
    by (rule shift_right_general [OF assms(1,2,3) nL refl assms(5-7) [unfolded k]])
qed

lemma shift_right_phases_distance:
  assumes "0 \<le> first" and "last' \<le> int (length xs)"
    and "0 < n" and "n < distance first last'"
    and "k = nat (distance first last' - n)"
    and "can_allocate ex k"
    and "is_schedule k (order1 ex k)"
    and "is_schedule k (order2 ex k)"
  shows "\<exists>m0 m1 m2.
           create_view vt ex ''shift_right_impl'' k xs = Some m0
         \<and> view m0 = xs \<and> length (tmp_view m0) = k
         \<and> parallel_for vt label (order1 ex k) k (StdMoveFunctor (View, first) (Tmp, 0)) m0 = Some m1
         \<and> length (tmp_view m1) = k
         \<and> (\<forall>i < k. tmp_view m1 ! i = xs ! nat (first + int i))
         \<and> parallel_for vt label (order2 ex k) k (StdMoveFunctor (Tmp, 0) (View, first + n)) m1 = Some m2
         \<and> (\<forall>i < k. view m2 ! nat (first + n + int i) = tmp_view m1 ! i)
         \<and> view m2 = shifted vt first last' n xs
         \<and> shift_right_impl vt label ex first last' n xs =
             Outcome (Inr (first + n)) (view m2) (general_trace label ex first n k)"
proof -
  have k: "k = nat (last' - n - first)"
    using assms(5) by (simp add: distance_def algebra_simps)
  have nL: "n < last' - first"
    using assms(4) by (simp add: distance_def)
  show ?thesis
    by (rule shift_right_phases [OF assms(1,2,3) nL k assms(6-8)])
qed

lemma item_accesses_StdMoveFunctor:
  "item_accesses (StdMoveFunctor (b, p) (c, q)) =
     (\<lambda>i. [MoveFrom (b, p + int i), AssignTo (c, q + int i)])"
  by (rule ext) (simp add: item_accesses_def StdMoveFunctor_def advance_def)

lemma filter_launch_accesses: "filter is_launch (concat (map (item_accesses f) order)) = []"
  by (induction order) (simp_all add: item_accesses_def is_launch_def)

lemma filter_fence_accesses: "filter is_fence (concat (map (item_accesses f) order)) = []"
  by (induction order) (simp_all add: item_accesses_def is_fence_def)

lemma trivial_cases:
  assumes "first \<le> last'" and "0 \<le> n" and "\<not> (0 < n \<and> n < distance first last')"
  shows "shift_right_impl vt label ex first last' n xs =
           Outcome (Inr (if n = 0 then first else last')) xs []"
proof (cases "n = 0")
  case True
  with assms(1) show ?thesis
    by (simp add: shift_right_impl_def expect_valid_range_def KOKKOS_EXPECTS_def)
next
  case False
  with assms have "distance first last' \<le> n" by simp
  with False assms(1,2) show ?thesis
    by (simp add: shift_right_impl_def expect_valid_range_def KOKKOS_EXPECTS_def)
qed

lemma length_shifted: "length (shifted vt first last' n xs) = length xs"
  by (simp add: shifted_def)

lemma shifted_outside:
  "j < length xs \<Longrightarrow> 0 \<le> n \<Longrightarrow> int j < first \<or> last' \<le> int j
   \<Longrightarrow> shifted vt first last' n xs ! j = xs ! j"
  by (auto simp: shifted_def)

lemma general_trace_accesses:
  assumes e: "e \<in> set (general_trace label ex first n k)"
    and p: "(View, p) \<in> accessed e"
    and o1: "set (order1 ex k) = {0..<k}" and o2: "set (order2 ex k) = {0..<k}"
    and n0: "0 \<le> n"
  shows "first \<le> p \<and> p < first + n + int k"
  using e p n0
  by (auto simp: general_trace_def item_accesses_StdMoveFunctor accessed_def o1 o2)

lemma footprint_eq:
  "footprint f i = {advance (m_first f) (int i), advance (m_dest_first f) (int i)}"
  by (auto simp: footprint_def item_accesses_def accessed_def)

lemma footprint_disjoint:
  assumes "fst (m_first f) \<noteq> fst (m_dest_first f)" and "i \<noteq> j"
  shows "footprint f i \<inter> footprint f j = {}"
  using assms by (auto simp: footprint_eq advance_def)

lemma move_item_frame:
  assumes res: "move_item vt f i m = Some m'"
  shows "trace m' = trace m @ item_accesses f i
     \<and> (0 \<le> snd it \<and> it \<notin> footprint f i \<longrightarrow> deref m' it = deref m it)"
proof -
  let ?s = "advance (m_first f) (int i)" and ?d = "advance (m_dest_first f) (int i)"
  have src: "in_bounds m ?s" and dst: "in_bounds m ?d"
    using res move_item_None [of m f i vt] by auto
  have m': "m' = log_events (item_accesses f i)
      (assign (assign m ?d (deref m ?s)) ?s (moved_from vt (deref m ?s) (deref m ?d)))"
    using move_item_Some [OF src dst, of vt] res by simp
  have src': "in_bounds (assign m ?d (deref m ?s)) ?s"
    using src by (simp add: in_bounds_assign)
  show ?thesis
    by (simp add: m' trace_log_events trace_assign deref_log_events footprint_eq
        deref_assign [OF src'] deref_assign [OF dst])
qed

section \<open>The general case: contents\<close>

text \<open>
  Claim C1. For a range \<open>[first, last)\<close> of length \<open>L\<close> inside the view and a shift amount
  \<open>0 < n < L\<close>, on a context that provides the temporary view and runs every work item
  of a launch exactly once, the call returns \<open>first + n\<close>, and for every \<open>i\<close> in
  \<open>[0, L - n)\<close> the element that was at \<open>first + i\<close> is at \<open>first + n + i\<close>. The witness is
  the example of the source comment, run in reversed order.
\<close>

theorem shift_right_content:
  assumes "0 \<le> first" and "last' \<le> int (length xs)"
    and "0 < n" and "n < distance first last'"
    and "k = nat (distance first last' - n)"
    and "can_allocate ex k"
    and "is_schedule k (order1 ex k)"
    and "is_schedule k (order2 ex k)"
  shows "\<exists>ys tr. shift_right_impl vt label ex first last' n xs = Outcome (Inr (first + n)) ys tr
           \<and> (\<forall>i. 0 \<le> i \<and> i < distance first last' - n
                  \<longrightarrow> ys ! nat (first + n + i) = xs ! nat (first + i))"
proof -
  have "\<forall>i. 0 \<le> i \<and> i < distance first last' - n
          \<longrightarrow> shifted vt first last' n xs ! nat (first + n + i) = xs ! nat (first + i)"
  proof (intro allI impI)
    fix i :: int assume i: "0 \<le> i \<and> i < distance first last' - n"
    then have lt: "nat (first + n + i) < length xs"
      using assms(1-4) unfolding distance_def by linarith
    have "int (nat (first + n + i)) = first + n + i" using i assms(1,3) by simp
    then show "shifted vt first last' n xs ! nat (first + n + i) = xs ! nat (first + i)"
      using lt i assms(1,3) by (simp add: shifted_def distance_def)
  qed
  then show ?thesis
    using shift_right_general_distance [OF assms(1-4), of ex vt label] assms(5-8) by simp
qed

theorem shift_right_content_witness:
  "\<exists>ys tr. shift_right_impl int_values ''shift'' reversing_space 0 12 3
              [0, 1, 2, 1, 2, 1, 2, 2, 10, -3, 1, -6] = Outcome (Inr 3) ys tr
     \<and> ys ! 3 = 0 \<and> ys ! 4 = 1 \<and> ys ! 5 = 2 \<and> ys ! 6 = 1 \<and> ys ! 7 = 2
     \<and> ys ! 8 = 1 \<and> ys ! 9 = 2 \<and> ys ! 10 = 2 \<and> ys ! 11 = 10"
proof -
  let ?xs = "[0, 1, 2, 1, 2, 1, 2, 2, 10, -3, 1, -6] :: int list"
  have a: "can_allocate reversing_space 9"
    by (simp add: reversing_space_def)
  have s1: "is_schedule 9 (order1 reversing_space 9)" by code_simp
  have s2: "is_schedule 9 (order2 reversing_space 9)" by code_simp
  have "\<exists>ys tr. shift_right_impl int_values ''shift'' reversing_space 0 12 3 ?xs
            = Outcome (Inr (0 + 3)) ys tr
          \<and> (\<forall>i. 0 \<le> i \<and> i < distance 0 12 - 3 \<longrightarrow> ys ! nat (0 + 3 + i) = ?xs ! nat (0 + i))"
    by (rule shift_right_content [where k = 9, OF _ _ _ _ _ a s1 s2]) (simp_all add: distance_def)
  then obtain ys tr where
    run: "shift_right_impl int_values ''shift'' reversing_space 0 12 3 ?xs = Outcome (Inr 3) ys tr"
    and pos: "\<And>i. 0 \<le> i \<Longrightarrow> i < 9 \<Longrightarrow> ys ! nat (3 + i) = ?xs ! nat i"
    by (auto simp: distance_def)
  from pos [of 0] pos [of 1] pos [of 2] pos [of 3] pos [of 4] pos [of 5] pos [of 6]
    pos [of 7] pos [of 8]
  have "ys ! 3 = 0 \<and> ys ! 4 = 1 \<and> ys ! 5 = 2 \<and> ys ! 6 = 1 \<and> ys ! 7 = 2
     \<and> ys ! 8 = 1 \<and> ys ! 9 = 2 \<and> ys ! 10 = 2 \<and> ys ! 11 = 10"
    by (simp add: nat_add_distrib)
  with run show ?thesis by blast
qed

section \<open>The trivial cases\<close>

text \<open>
  Claim C2. For every valid range and \<open>n = 0\<close> the call returns \<open>first\<close> at once: the
  contents of the view are exactly the input contents, and no event happened, so no
  temporary view was created and no kernel was launched.
\<close>

theorem shift_right_zero:
  "first \<le> last' \<Longrightarrow> shift_right_impl vt label ex first last' 0 xs = Outcome (Inr first) xs []"
  by (simp add: shift_right_impl_def expect_valid_range_def KOKKOS_EXPECTS_def)

theorem shift_right_zero_witness:
  "(0::int) \<le> 5 \<and>
   shift_right_impl int_values ''shift'' serial_space 0 5 0 [4, 8, 15, 16, 23]
     = Outcome (Inr 0) [4, 8, 15, 16, 23] []"
  using shift_right_zero [of 0 5 int_values "''shift''" serial_space "[4, 8, 15, 16, 23]"]
  by simp

text \<open>
  Claim C3. For every valid range and every \<open>n\<close> that is at least the distance from
  \<open>first\<close> to \<open>last\<close>, the call returns \<open>last\<close> at once: no temporary view, no launch,
  and no failure however large \<open>n\<close> is.
\<close>

theorem shift_right_all_displaced:
  "first \<le> last' \<Longrightarrow> distance first last' \<le> n
   \<Longrightarrow> shift_right_impl vt label ex first last' n xs = Outcome (Inr last') xs []"
  by (simp add: shift_right_impl_def expect_valid_range_def KOKKOS_EXPECTS_def distance_def)

theorem shift_right_all_displaced_witness:
  "shift_right_impl int_values ''shift'' serial_space 0 5 5 [4, 8, 15, 16, 23]
     = Outcome (Inr 5) [4, 8, 15, 16, 23] []
   \<and> shift_right_impl int_values ''shift'' exhausted_space 1 4 9223372036854775807 [4, 8, 15, 16, 23]
     = Outcome (Inr 4) [4, 8, 15, 16, 23] []"
  using shift_right_all_displaced [of 0 5 5 int_values "''shift''" serial_space "[4, 8, 15, 16, 23]"]
    shift_right_all_displaced [of 1 4 9223372036854775807 int_values "''shift''" exhausted_space
      "[4, 8, 15, 16, 23]"]
  by (simp add: distance_def)

text \<open>
  Claim C4. On the empty range (\<open>first = last\<close>) the call is a no-op for every \<open>n \<ge> 0\<close>:
  the view is unchanged, nothing is allocated or launched, and the returned position is
  \<open>first\<close>, which is \<open>last\<close>.
\<close>

theorem shift_right_empty_range:
  "0 \<le> n \<Longrightarrow> shift_right_impl vt label ex first first n xs = Outcome (Inr first) xs []"
  by (simp add: shift_right_impl_def expect_valid_range_def KOKKOS_EXPECTS_def distance_def)

theorem shift_right_empty_range_witness:
  "shift_right_impl int_values ''shift'' serial_space 2 2 0 [4, 8, 15] = Outcome (Inr 2) [4, 8, 15] []
   \<and> shift_right_impl int_values ''shift'' serial_space 2 2 7 [4, 8, 15] = Outcome (Inr 2) [4, 8, 15] []
   \<and> shift_right_impl int_values ''shift'' serial_space 0 0 1 [] = Outcome (Inr 0) [] []"
  using shift_right_empty_range [of 0 int_values "''shift''" serial_space 2 "[4, 8, 15]"]
    shift_right_empty_range [of 7 int_values "''shift''" serial_space 2 "[4, 8, 15]"]
    shift_right_empty_range [of 1 int_values "''shift''" serial_space 0 "[]"]
  by simp

section \<open>The general case: buffer, launches and fence\<close>

text \<open>
  Claim C5. In the general case \<open>0 < n < distance(first, last)\<close> the call creates a
  temporary view of exactly \<open>k = distance(first, last) - n\<close> elements, and each of the two
  launches has the range \<open>[0, k)\<close> and runs \<open>k\<close> work items: item \<open>i\<close> of the first moves
  from \<open>first + i\<close> and assigns to position \<open>i\<close> of the temporary view, item \<open>i\<close> of the
  second moves from position \<open>i\<close> of the temporary view and assigns to \<open>first + n + i\<close>.
  The moves are stated on the memory as well as on the events: the temporary view
  created has \<open>k\<close> elements, after the first launch its position \<open>i\<close> holds the element
  that was at \<open>first + i\<close>, after the second launch position \<open>first + n + i\<close> of the
  caller's view holds that element, and the view the call leaves is the shifted one.
\<close>

theorem shift_right_buffer_and_launches:
  assumes "0 \<le> first" and "last' \<le> int (length xs)"
    and "0 < n" and "n < distance first last'"
    and "k = nat (distance first last' - n)"
    and "can_allocate ex k"
    and "is_schedule k (order1 ex k)"
    and "is_schedule k (order2 ex k)"
  shows "shift_right_impl vt label ex first last' n xs =
           Outcome (Inr (first + n)) (shifted vt first last' n xs)
             ([Alloc ''shift_right_impl'' k, Launch label k]
              @ concat (map (\<lambda>i. [MoveFrom (View, first + int i), AssignTo (Tmp, int i)])
                          (order1 ex k))
              @ [Launch label k]
              @ concat (map (\<lambda>i. [MoveFrom (Tmp, int i), AssignTo (View, first + n + int i)])
                          (order2 ex k))
              @ [Fence ''Kokkos::shift_right: fence after operation''])
         \<and> (\<exists>m0 m1 m2.
               create_view vt ex ''shift_right_impl'' k xs = Some m0
             \<and> view m0 = xs \<and> length (tmp_view m0) = k
             \<and> parallel_for vt label (order1 ex k) k (StdMoveFunctor (View, first) (Tmp, 0)) m0
                 = Some m1
             \<and> length (tmp_view m1) = k
             \<and> (\<forall>i < k. tmp_view m1 ! i = xs ! nat (first + int i))
             \<and> parallel_for vt label (order2 ex k) k (StdMoveFunctor (Tmp, 0) (View, first + n)) m1
                 = Some m2
             \<and> (\<forall>i < k. view m2 ! nat (first + n + int i) = tmp_view m1 ! i)
             \<and> view m2 = shifted vt first last' n xs)
         \<and> (\<forall>i < k. shifted vt first last' n xs ! nat (first + n + int i) = xs ! nat (first + int i))
         \<and> length (order1 ex k) = k \<and> set (order1 ex k) = {0..<k}
         \<and> length (order2 ex k) = k \<and> set (order2 ex k) = {0..<k}"
proof -
  from shift_right_phases_distance [OF assms, of vt label]
  obtain m0 m1 m2 where
    cv: "create_view vt ex ''shift_right_impl'' k xs = Some m0"
    and m0: "view m0 = xs" "length (tmp_view m0) = k"
    and p1: "parallel_for vt label (order1 ex k) k (StdMoveFunctor (View, first) (Tmp, 0)) m0 = Some m1"
    and l1: "length (tmp_view m1) = k"
    and drain: "\<forall>i < k. tmp_view m1 ! i = xs ! nat (first + int i)"
    and p2: "parallel_for vt label (order2 ex k) k (StdMoveFunctor (Tmp, 0) (View, first + n)) m1 = Some m2"
    and fill: "\<forall>i < k. view m2 ! nat (first + n + int i) = tmp_view m1 ! i"
    and sh: "view m2 = shifted vt first last' n xs"
    and run: "shift_right_impl vt label ex first last' n xs =
             Outcome (Inr (first + n)) (view m2) (general_trace label ex first n k)"
    by blast
  have A: "shift_right_impl vt label ex first last' n xs =
           Outcome (Inr (first + n)) (shifted vt first last' n xs)
             ([Alloc ''shift_right_impl'' k, Launch label k]
              @ concat (map (\<lambda>i. [MoveFrom (View, first + int i), AssignTo (Tmp, int i)])
                          (order1 ex k))
              @ [Launch label k]
              @ concat (map (\<lambda>i. [MoveFrom (Tmp, int i), AssignTo (View, first + n + int i)])
                          (order2 ex k))
              @ [Fence ''Kokkos::shift_right: fence after operation''])"
    using run by (simp add: sh general_trace_def item_accesses_StdMoveFunctor)
  have B: "\<exists>m0 m1 m2.
               create_view vt ex ''shift_right_impl'' k xs = Some m0
             \<and> view m0 = xs \<and> length (tmp_view m0) = k
             \<and> parallel_for vt label (order1 ex k) k (StdMoveFunctor (View, first) (Tmp, 0)) m0
                 = Some m1
             \<and> length (tmp_view m1) = k
             \<and> (\<forall>i < k. tmp_view m1 ! i = xs ! nat (first + int i))
             \<and> parallel_for vt label (order2 ex k) k (StdMoveFunctor (Tmp, 0) (View, first + n)) m1
                 = Some m2
             \<and> (\<forall>i < k. view m2 ! nat (first + n + int i) = tmp_view m1 ! i)
             \<and> view m2 = shifted vt first last' n xs"
    using cv m0 p1 l1 drain p2 fill sh by blast
  have C: "\<forall>i < k. shifted vt first last' n xs ! nat (first + n + int i) = xs ! nat (first + int i)"
    using drain fill sh by simp
  have D: "length (order1 ex k) = k \<and> set (order1 ex k) = {0..<k}
         \<and> length (order2 ex k) = k \<and> set (order2 ex k) = {0..<k}"
    using assms(7,8) by (simp add: is_schedule_length is_schedule_set)
  from A B C D show ?thesis by blast
qed

theorem shift_right_buffer_and_launches_witness:
  "shift_right_impl clearing_values ''shift'' reversing_space 1 4 1 [10, 20, 30, 40, 50] =
     Outcome (Inr 2) [10, -1, 20, 30, 50]
       [Alloc ''shift_right_impl'' 2, Launch ''shift'' 2,
        MoveFrom (View, 2), AssignTo (Tmp, 1), MoveFrom (View, 1), AssignTo (Tmp, 0),
        Launch ''shift'' 2,
        MoveFrom (Tmp, 1), AssignTo (View, 3), MoveFrom (Tmp, 0), AssignTo (View, 2),
        Fence ''Kokkos::shift_right: fence after operation'']
   \<and> (\<exists>m0 m1 m2.
         create_view clearing_values reversing_space ''shift_right_impl'' 2 [10, 20, 30, 40, 50] = Some m0
       \<and> parallel_for clearing_values ''shift'' [1, 0] 2 (StdMoveFunctor (View, 1) (Tmp, 0)) m0 = Some m1
       \<and> tmp_view m1 = [20, 30]
       \<and> parallel_for clearing_values ''shift'' [1, 0] 2 (StdMoveFunctor (Tmp, 0) (View, 2)) m1 = Some m2
       \<and> view m2 = [10, -1, 20, 30, 50])"
proof -
  have a: "can_allocate reversing_space 2"
    by (simp add: reversing_space_def)
  have s1: "is_schedule 2 (order1 reversing_space 2)" by code_simp
  have s2: "is_schedule 2 (order2 reversing_space 2)" by code_simp
  have o1: "order1 reversing_space 2 = [1, 0]" by code_simp
  have o2: "order2 reversing_space 2 = [1, 0]" by code_simp
  have sh: "shifted clearing_values 1 4 1 [10, 20, 30, 40, 50] = [10, -1, 20, 30, 50]"
    by code_simp
  note th = shift_right_buffer_and_launches [where first = 1 and last' = 4 and n = 1 and k = 2
      and xs = "[10, 20, 30, 40, 50]" and ex = reversing_space and vt = clearing_values
      and label = "''shift''", OF _ _ _ _ _ a s1 s2, unfolded o1 o2 sh]
  have run: "shift_right_impl clearing_values ''shift'' reversing_space 1 4 1 [10, 20, 30, 40, 50] =
     Outcome (Inr 2) [10, -1, 20, 30, 50]
       [Alloc ''shift_right_impl'' 2, Launch ''shift'' 2,
        MoveFrom (View, 2), AssignTo (Tmp, 1), MoveFrom (View, 1), AssignTo (Tmp, 0),
        Launch ''shift'' 2,
        MoveFrom (Tmp, 1), AssignTo (View, 3), MoveFrom (Tmp, 0), AssignTo (View, 2),
        Fence ''Kokkos::shift_right: fence after operation'']"
    using th by (simp add: distance_def)
  from th obtain m0 m1 m2 where
    cv: "create_view clearing_values reversing_space ''shift_right_impl'' 2 [10, 20, 30, 40, 50] = Some m0"
    and p1: "parallel_for clearing_values ''shift'' [1, 0] 2 (StdMoveFunctor (View, 1) (Tmp, 0)) m0 = Some m1"
    and l1: "length (tmp_view m1) = 2"
    and drain: "\<forall>i < 2. tmp_view m1 ! i = [10, 20, 30, 40, 50] ! nat (1 + int i)"
    and p2: "parallel_for clearing_values ''shift'' [1, 0] 2 (StdMoveFunctor (Tmp, 0) (View, 1 + 1)) m1 = Some m2"
    and v2: "view m2 = [10, -1, 20, 30, 50]"
    by (auto simp: distance_def)
  have "tmp_view m1 ! 0 = 20" "tmp_view m1 ! 1 = 30"
    using drain by (simp_all add: nat_add_distrib)
  with l1 have t1: "tmp_view m1 = [20, 30]"
    by (cases "tmp_view m1"; cases "tl (tmp_view m1)") auto
  from run cv p1 t1 p2 v2 show ?thesis by auto
qed

text \<open>
  Claim C6. A call in the general case issues exactly two launches and exactly one
  fence, and the fence is the last event: it comes after both launches and before the
  return. A call in a trivial case (\<open>n = 0\<close> or \<open>n \<ge> distance(first, last)\<close>) issues no
  launch and no fence.
\<close>

theorem shift_right_launches_and_fence:
  assumes "0 \<le> first" and "first \<le> last'" and "last' \<le> int (length xs)" and "0 \<le> n"
    and "k = nat (distance first last' - n)"
    and "0 < n \<and> n < distance first last'
         \<longrightarrow> can_allocate ex k \<and> is_schedule k (order1 ex k) \<and> is_schedule k (order2 ex k)"
  shows "\<exists>r ys tr. shift_right_impl vt label ex first last' n xs = Outcome r ys tr
     \<and> (if 0 < n \<and> n < distance first last'
        then length (filter is_launch tr) = 2 \<and> length (filter is_fence tr) = 1
             \<and> (\<exists>tr0 name. tr = tr0 @ [Fence name] \<and> length (filter is_launch tr0) = 2)
        else filter is_launch tr = [] \<and> filter is_fence tr = [])"
proof (cases "0 < n \<and> n < distance first last'")
  case False
  with trivial_cases [OF assms(2,4) False, of vt label ex xs] show ?thesis
    by simp
next
  case True
  let ?tr0 = "[Alloc ''shift_right_impl'' k, Launch label k]
     @ concat (map (item_accesses (StdMoveFunctor (View, first) (Tmp, 0))) (order1 ex k))
     @ [Launch label k]
     @ concat (map (item_accesses (StdMoveFunctor (Tmp, 0) (View, first + n))) (order2 ex k))"
  have run: "shift_right_impl vt label ex first last' n xs =
      Outcome (Inr (first + n)) (shifted vt first last' n xs) (general_trace label ex first n k)"
    using shift_right_general_distance [OF assms(1,3), of n ex vt label] True assms(5,6)
    by simp
  have split: "general_trace label ex first n k
      = ?tr0 @ [Fence ''Kokkos::shift_right: fence after operation'']"
    by (simp add: general_trace_def)
  have l0: "length (filter is_launch ?tr0) = 2"
    by (simp add: filter_launch_accesses is_launch_def)
  have f0: "length (filter is_fence ?tr0) = 0"
    by (simp add: filter_fence_accesses is_fence_def)
  have "length (filter is_launch (general_trace label ex first n k)) = 2"
    unfolding split using l0 by (simp add: is_launch_def)
  moreover have "length (filter is_fence (general_trace label ex first n k)) = 1"
    unfolding split using f0 by (simp add: is_fence_def)
  ultimately show ?thesis
    using True run split l0 by auto
qed

theorem shift_right_launches_and_fence_witness:
  "(\<exists>tr0. shift_right_impl clearing_values ''shift'' reversing_space 1 4 1 [10, 20, 30, 40, 50]
            = Outcome (Inr 2) [10, -1, 20, 30, 50]
                (tr0 @ [Fence ''Kokkos::shift_right: fence after operation''])
          \<and> length (filter is_launch tr0) = 2 \<and> length (filter is_fence tr0) = 0)
   \<and> (\<exists>r ys tr. shift_right_impl clearing_values ''shift'' exhausted_space 1 4 3 [10, 20, 30, 40, 50]
            = Outcome r ys tr \<and> filter is_launch tr = [] \<and> filter is_fence tr = [])"
proof -
  have a: "can_allocate reversing_space 2"
    by (simp add: reversing_space_def)
  have s1: "is_schedule 2 (order1 reversing_space 2)" by code_simp
  have s2: "is_schedule 2 (order2 reversing_space 2)" by code_simp
  have e1: "shift_right_impl clearing_values ''shift'' reversing_space 1 4 1 [10, 20, 30, 40, 50]
      = Outcome (Inr 2) [10, -1, 20, 30, 50]
          ([Alloc ''shift_right_impl'' 2, Launch ''shift'' 2,
            MoveFrom (View, 2), AssignTo (Tmp, 1), MoveFrom (View, 1), AssignTo (Tmp, 0),
            Launch ''shift'' 2,
            MoveFrom (Tmp, 1), AssignTo (View, 3), MoveFrom (Tmp, 0), AssignTo (View, 2)]
           @ [Fence ''Kokkos::shift_right: fence after operation''])"
    by code_simp
  from shift_right_launches_and_fence [where first = 1 and last' = 4 and n = 1 and k = 2
      and xs = "[10, 20, 30, 40, 50]" and ex = reversing_space and vt = clearing_values
      and label = "''shift''"] a s1 s2
  have g: "\<exists>tr0. shift_right_impl clearing_values ''shift'' reversing_space 1 4 1 [10, 20, 30, 40, 50]
            = Outcome (Inr 2) [10, -1, 20, 30, 50]
                (tr0 @ [Fence ''Kokkos::shift_right: fence after operation''])
          \<and> length (filter is_launch tr0) = 2 \<and> length (filter is_fence tr0) = 0"
    unfolding e1 by (simp add: distance_def is_launch_def is_fence_def)
  from shift_right_launches_and_fence [where first = 1 and last' = 4 and n = 3 and k = 0
      and xs = "[10, 20, 30, 40, 50]" and ex = exhausted_space and vt = clearing_values
      and label = "''shift''"]
  have "\<exists>r ys tr. shift_right_impl clearing_values ''shift'' exhausted_space 1 4 3 [10, 20, 30, 40, 50]
            = Outcome r ys tr \<and> filter is_launch tr = [] \<and> filter is_fence tr = []"
    by (simp add: distance_def)
  with g show ?thesis by blast
qed

section \<open>Failures\<close>

text \<open>
  Claim C7. The temporary view is created before any element is moved: when its
  allocation fails, the call raises the allocation failure, the view holds exactly its
  input contents, and no event (no launch, no element access) has happened.
\<close>

theorem shift_right_allocation_failure:
  "0 < n \<Longrightarrow> n < distance first last'
   \<Longrightarrow> \<not> can_allocate ex (nat (distance first last' - n))
   \<Longrightarrow> shift_right_impl vt label ex first last' n xs = Outcome (Inl AllocationFailure) xs []"
  by (simp add: shift_right_impl_def expect_valid_range_def KOKKOS_EXPECTS_def distance_def
      create_view_def Let_def algebra_simps)

theorem shift_right_allocation_failure_witness:
  "\<not> can_allocate exhausted_space (nat (distance 1 4 - 1))
   \<and> shift_right_impl clearing_values ''shift'' exhausted_space 1 4 1 [10, 20, 30, 40, 50]
       = Outcome (Inl AllocationFailure) [10, 20, 30, 40, 50] []"
  using shift_right_allocation_failure [of 1 1 4 exhausted_space clearing_values "''shift''"
      "[10, 20, 30, 40, 50]"]
  by (simp add: distance_def exhausted_space_def)

text \<open>
  Claim C8. The preconditions \<open>first \<le> last\<close> and \<open>n \<ge> 0\<close> are checked at entry, before
  any branch or mutation. For \<open>n < 0\<close> or an inverted range the call stops with a contract
  violation, the view unchanged and no event; when both preconditions hold, both checks
  pass and no outcome of the call is a contract violation.
\<close>

theorem shift_right_preconditions:
  "(n < 0 \<or> last' < first
      \<longrightarrow> shift_right_impl vt label ex first last' n xs = Outcome (Inl ContractViolation) xs [])
   \<and> (0 \<le> n \<and> first \<le> last'
      \<longrightarrow> expect_valid_range first last' = None \<and> KOKKOS_EXPECTS (0 \<le> n) = None
          \<and> (\<forall>ys tr. shift_right_impl vt label ex first last' n xs
                       \<noteq> Outcome (Inl ContractViolation) ys tr))"
  by (auto simp: shift_right_impl_def expect_valid_range_def KOKKOS_EXPECTS_def Let_def
      split: option.splits)

theorem shift_right_preconditions_witness:
  "shift_right_impl int_values ''shift'' serial_space 1 4 (-1) [10, 20, 30, 40, 50]
      = Outcome (Inl ContractViolation) [10, 20, 30, 40, 50] []
   \<and> shift_right_impl int_values ''shift'' serial_space 4 1 1 [10, 20, 30, 40, 50]
      = Outcome (Inl ContractViolation) [10, 20, 30, 40, 50] []
   \<and> expect_valid_range 1 4 = None \<and> KOKKOS_EXPECTS ((0::int) \<le> 1) = None
   \<and> (\<forall>ys tr. shift_right_impl int_values ''shift'' serial_space 1 4 1 [10, 20, 30, 40, 50]
                \<noteq> Outcome (Inl ContractViolation) ys tr)"
  using shift_right_preconditions [of "-1" 4 1 int_values "''shift''" serial_space "[10, 20, 30, 40, 50]"]
    shift_right_preconditions [of 1 1 4 int_values "''shift''" serial_space "[10, 20, 30, 40, 50]"]
    shift_right_preconditions [of 1 4 1 int_values "''shift''" serial_space "[10, 20, 30, 40, 50]"]
  by simp

section \<open>Frame and scheduling\<close>

text \<open>
  Claim C9. For every range inside the view and every \<open>n \<ge> 0\<close>, whatever the context
  allocates and however it orders the work items, the call returns or raises with a view
  of the same length in which every position outside \<open>[first, last)\<close> holds its input
  value, and every element access to the caller's view is at a position in
  \<open>[first, last)\<close>.
\<close>

theorem shift_right_frame:
  assumes "0 \<le> first" and "first \<le> last'" and "last' \<le> int (length xs)" and "0 \<le> n"
    and "k = nat (distance first last' - n)"
    and "0 < n \<and> n < distance first last' \<and> can_allocate ex k
         \<longrightarrow> is_schedule k (order1 ex k) \<and> is_schedule k (order2 ex k)"
  shows "\<exists>r ys tr. shift_right_impl vt label ex first last' n xs = Outcome r ys tr
     \<and> length ys = length xs
     \<and> (\<forall>j < length xs. int j < first \<or> last' \<le> int j \<longrightarrow> ys ! j = xs ! j)
     \<and> (\<forall>e \<in> set tr. \<forall>p. (View, p) \<in> accessed e \<longrightarrow> first \<le> p \<and> p < last')"
proof (cases "0 < n \<and> n < distance first last'")
  case False
  with trivial_cases [OF assms(2,4) False, of vt label ex xs] show ?thesis
    by simp
next
  case True
  show ?thesis
  proof (cases "can_allocate ex k")
    case False
    have "shift_right_impl vt label ex first last' n xs = Outcome (Inl AllocationFailure) xs []"
      using True False assms(5)
      by (simp add: shift_right_impl_def expect_valid_range_def KOKKOS_EXPECTS_def distance_def
          create_view_def Let_def algebra_simps)
    then show ?thesis by simp
  next
    case alloc: True
    have s1: "is_schedule k (order1 ex k)" and s2: "is_schedule k (order2 ex k)"
      using assms(6) True alloc by simp_all
    have run: "shift_right_impl vt label ex first last' n xs =
        Outcome (Inr (first + n)) (shifted vt first last' n xs) (general_trace label ex first n k)"
      using shift_right_general_distance [OF assms(1,3), of n ex vt label] True alloc assms(5) s1 s2
      by simp
    have kk: "first + n + int k = last'"
      using True assms(5) by (simp add: distance_def)
    have "\<forall>e \<in> set (general_trace label ex first n k).
            \<forall>p. (View, p) \<in> accessed e \<longrightarrow> first \<le> p \<and> p < last'"
      using general_trace_accesses [of _ label ex first n k, OF _ _
          is_schedule_set [OF s1] is_schedule_set [OF s2] assms(4)] kk
      by auto
    then show ?thesis
      using run assms(4) by (simp add: length_shifted shifted_outside)
  qed
qed

theorem shift_right_frame_witness:
  "\<exists>r ys tr. shift_right_impl clearing_values ''shift'' reversing_space 1 4 1 [10, 20, 30, 40, 50]
        = Outcome r ys tr
     \<and> length ys = 5 \<and> ys ! 0 = 10 \<and> ys ! 4 = 50
     \<and> list_all (\<lambda>e. list_all (\<lambda>p. (View, p) \<notin> accessed e) [-1, 0, 4, 5]) tr"
proof -
  have s1: "is_schedule 2 (order1 reversing_space 2)" by code_simp
  have s2: "is_schedule 2 (order2 reversing_space 2)" by code_simp
  have "\<exists>r ys tr.
      shift_right_impl clearing_values ''shift'' reversing_space 1 4 1 [10, 20, 30, 40, 50]
        = Outcome r ys tr
      \<and> length ys = length [10, 20, 30, 40, 50 :: int]
      \<and> (\<forall>j < length [10, 20, 30, 40, 50 :: int].
            int j < 1 \<or> 4 \<le> int j \<longrightarrow> ys ! j = [10, 20, 30, 40, 50] ! j)
      \<and> (\<forall>e \<in> set tr. \<forall>p. (View, p) \<in> accessed e \<longrightarrow> 1 \<le> p \<and> p < 4)"
    by (rule shift_right_frame [where k = 2]) (simp_all add: distance_def s1 s2)
  then obtain r ys tr where
    run: "shift_right_impl clearing_values ''shift'' reversing_space 1 4 1 [10, 20, 30, 40, 50]
        = Outcome r ys tr"
    and len: "length ys = length [10, 20, 30, 40, 50 :: int]"
    and out: "\<And>j. j < length [10, 20, 30, 40, 50 :: int] \<Longrightarrow> int j < 1 \<or> 4 \<le> int j
                \<Longrightarrow> ys ! j = [10, 20, 30, 40, 50] ! j"
    and acc: "\<And>e p. e \<in> set tr \<Longrightarrow> (View, p) \<in> accessed e \<Longrightarrow> 1 \<le> p \<and> p < 4"
    by blast
  have "ys ! 0 = 10" using out [of 0] by simp
  moreover have "ys ! 4 = 50" using out [of 4] by simp
  moreover have "list_all (\<lambda>e. list_all (\<lambda>p. (View, p) \<notin> accessed e) [-1, 0, 4, 5]) tr"
    using acc by (fastforce simp: list_all_iff)
  ultimately show ?thesis using run len by auto
qed

text \<open>
  Claim C10. Work item \<open>i\<close> of the first launch moves from \<open>first + i\<close> and assigns to
  position \<open>i\<close> of the temporary view, work item \<open>i\<close> of the second moves from position \<open>i\<close>
  of the temporary view and assigns to \<open>first + n + i\<close>; a work item changes no other
  element, and distinct work items of one launch access disjoint elements. Hence two
  executions of the same call on contexts that order the work items of either launch
  differently return the same position and leave the same contents in the view.
\<close>

theorem shift_right_schedule_independent:
  assumes "0 \<le> first" and "first \<le> last'" and "last' \<le> int (length xs)" and "0 \<le> n"
    and "k = nat (distance first last' - n)"
    and "can_allocate ex' k = can_allocate ex k"
    and "0 < n \<and> n < distance first last' \<and> can_allocate ex k
         \<longrightarrow> is_schedule k (order1 ex k) \<and> is_schedule k (order2 ex k)
           \<and> is_schedule k (order1 ex' k) \<and> is_schedule k (order2 ex' k)"
    and "step_one = StdMoveFunctor (View, first) (Tmp, 0)"
    and "step_two = StdMoveFunctor (Tmp, 0) (View, first + n)"
  shows "(\<exists>r ys tr tr'. shift_right_impl vt label ex first last' n xs = Outcome r ys tr
              \<and> shift_right_impl vt label ex' first last' n xs = Outcome r ys tr')
     \<and> (\<forall>i. item_accesses step_one i = [MoveFrom (View, first + int i), AssignTo (Tmp, int i)])
     \<and> (\<forall>i. item_accesses step_two i = [MoveFrom (Tmp, int i), AssignTo (View, first + n + int i)])
     \<and> (\<forall>i j. i \<noteq> j \<longrightarrow> footprint step_one i \<inter> footprint step_one j = {}
                       \<and> footprint step_two i \<inter> footprint step_two j = {})
     \<and> (\<forall>f \<in> {step_one, step_two}. \<forall>i m m' it. move_item vt f i m = Some m' \<longrightarrow>
            trace m' = trace m @ item_accesses f i
            \<and> (0 \<le> snd it \<and> it \<notin> footprint f i \<longrightarrow> deref m' it = deref m it))"
proof -
  have det: "\<exists>r ys tr tr'. shift_right_impl vt label ex first last' n xs = Outcome r ys tr
              \<and> shift_right_impl vt label ex' first last' n xs = Outcome r ys tr'"
  proof (cases "0 < n \<and> n < distance first last'")
    case False
    show ?thesis
      using trivial_cases [OF assms(2,4) False, of vt label ex xs]
        trivial_cases [OF assms(2,4) False, of vt label ex' xs]
      by simp
  next
    case True
    show ?thesis
    proof (cases "can_allocate ex k")
      case False
      then have "\<not> can_allocate ex' k" using assms(6) by simp
      with False True assms(5) show ?thesis
        by (simp add: shift_right_impl_def expect_valid_range_def KOKKOS_EXPECTS_def distance_def
            create_view_def Let_def algebra_simps)
    next
      case alloc: True
      then have alloc': "can_allocate ex' k" using assms(6) by simp
      have sched: "is_schedule k (order1 ex k)" "is_schedule k (order2 ex k)"
        "is_schedule k (order1 ex' k)" "is_schedule k (order2 ex' k)"
        using assms(7) True alloc by simp_all
      have "shift_right_impl vt label ex first last' n xs =
          Outcome (Inr (first + n)) (shifted vt first last' n xs) (general_trace label ex first n k)"
        using shift_right_general_distance [OF assms(1,3), of n ex vt label] True alloc assms(5) sched(1,2)
        by simp
      moreover have "shift_right_impl vt label ex' first last' n xs =
          Outcome (Inr (first + n)) (shifted vt first last' n xs) (general_trace label ex' first n k)"
        using shift_right_general_distance [OF assms(1,3), of n ex' vt label] True alloc' assms(5) sched(3,4)
        by simp
      ultimately show ?thesis by simp
    qed
  qed
  have acc: "(\<forall>i. item_accesses step_one i = [MoveFrom (View, first + int i), AssignTo (Tmp, int i)])
     \<and> (\<forall>i. item_accesses step_two i = [MoveFrom (Tmp, int i), AssignTo (View, first + n + int i)])"
    by (simp add: assms(8,9) item_accesses_StdMoveFunctor)
  have dis: "\<forall>i j. i \<noteq> j \<longrightarrow> footprint step_one i \<inter> footprint step_one j = {}
                       \<and> footprint step_two i \<inter> footprint step_two j = {}"
    by (simp add: assms(8,9) footprint_disjoint StdMoveFunctor_def)
  have frame: "\<forall>f \<in> {step_one, step_two}. \<forall>i m m' it. move_item vt f i m = Some m' \<longrightarrow>
            trace m' = trace m @ item_accesses f i
            \<and> (0 \<le> snd it \<and> it \<notin> footprint f i \<longrightarrow> deref m' it = deref m it)"
    using move_item_frame by blast
  from det acc dis frame show ?thesis by blast
qed

theorem shift_right_schedule_independent_witness:
  "(\<exists>tr tr'. shift_right_impl clearing_values ''shift'' serial_space 1 4 1 [10, 20, 30, 40, 50]
                = Outcome (Inr 2) [10, -1, 20, 30, 50] tr
            \<and> shift_right_impl clearing_values ''shift'' reversing_space 1 4 1 [10, 20, 30, 40, 50]
                = Outcome (Inr 2) [10, -1, 20, 30, 50] tr')
   \<and> order1 serial_space 2 \<noteq> order1 reversing_space 2
   \<and> footprint (StdMoveFunctor (View, 1) (Tmp, 0)) 0
       \<inter> footprint (StdMoveFunctor (View, 1) (Tmp, 0)) 1 = {}
   \<and> footprint (StdMoveFunctor (Tmp, 0) (View, 1 + 1)) 0
       \<inter> footprint (StdMoveFunctor (Tmp, 0) (View, 1 + 1)) 1 = {}"
proof -
  have s1: "is_schedule 2 (order1 serial_space 2)" by code_simp
  have s2: "is_schedule 2 (order2 serial_space 2)" by code_simp
  have r1: "is_schedule 2 (order1 reversing_space 2)" by code_simp
  have r2: "is_schedule 2 (order2 reversing_space 2)" by code_simp
  have a: "can_allocate reversing_space 2 = can_allocate serial_space 2"
    by (simp add: reversing_space_def serial_space_def)
  have ne: "order1 serial_space 2 \<noteq> order1 reversing_space 2" by code_simp
  note ind = shift_right_schedule_independent [where first = 1 and last' = 4 and n = 1 and k = 2
      and xs = "[10, 20, 30, 40, 50]" and ex = serial_space and ex' = reversing_space
      and vt = clearing_values and label = "''shift''"
      and step_one = "StdMoveFunctor (View, 1) (Tmp, 0)"
      and step_two = "StdMoveFunctor (Tmp, 0) (View, 1 + 1)"]
  have e: "shift_right_impl clearing_values ''shift'' serial_space 1 4 1 [10, 20, 30, 40, 50]
      = Outcome (Inr 2) [10, -1, 20, 30, 50]
          [Alloc ''shift_right_impl'' 2, Launch ''shift'' 2,
           MoveFrom (View, 1), AssignTo (Tmp, 0), MoveFrom (View, 2), AssignTo (Tmp, 1),
           Launch ''shift'' 2,
           MoveFrom (Tmp, 0), AssignTo (View, 2), MoveFrom (Tmp, 1), AssignTo (View, 3),
           Fence ''Kokkos::shift_right: fence after operation'']"
    by code_simp
  have "\<exists>tr tr'. shift_right_impl clearing_values ''shift'' serial_space 1 4 1 [10, 20, 30, 40, 50]
                = Outcome (Inr 2) [10, -1, 20, 30, 50] tr
            \<and> shift_right_impl clearing_values ''shift'' reversing_space 1 4 1 [10, 20, 30, 40, 50]
                = Outcome (Inr 2) [10, -1, 20, 30, 50] tr'"
    using ind s1 s2 r1 r2 a unfolding e by (simp add: distance_def)
  moreover have "footprint (StdMoveFunctor (View, 1) (Tmp, 0)) 0
       \<inter> footprint (StdMoveFunctor (View, 1) (Tmp, 0)) 1 = {}
     \<and> footprint (StdMoveFunctor (Tmp, 0) (View, 1 + 1)) 0
       \<inter> footprint (StdMoveFunctor (Tmp, 0) (View, 1 + 1)) 1 = {}"
    using ind s1 s2 r1 r2 a by (simp add: distance_def)
  ultimately show ?thesis using ne by blast
qed

end
